theory Spec2Isabelle
  imports Main
begin

section \<open>Package monitor: latency tracking (monitor.go)\<close>

text \<open>
  The package holds one configuration struct, \<open>LatencyTracker\<close>, two functional
  options, a constructor, two defaults, one package-level variable and the free-standing
  function \<open>Track\<close>. Go function values are closures that may be \<open>nil\<close>, may write to
  the outside world and may panic; the embedding makes all three explicit.
\<close>

subsection \<open>Values of the Go runtime\<close>

text \<open>
  \<open>context.Context\<close> is an opaque carrier for this package. Only the empty root context
  returned by \<open>context.Background()\<close> and contexts derived from a parent by attaching a
  key and a value are told apart.
\<close>

datatype Context = Background | WithValue Context string string

text \<open>
  A value of type \<open>interface{}\<close>: what is passed in the variadic arguments of a log
  function, and what a panic carries. Instants and durations are integer nanoseconds.
\<close>

type_synonym time = int

datatype iface = AString string | ADuration int | ARuntimeError string

text \<open>The panic value of the Go runtime for a call through a \<open>nil\<close> function value.\<close>

definition nil_deref :: iface where
  "nil_deref = ARuntimeError ''invalid memory address or nil pointer dereference''"

text \<open>
  The result of running a piece of Go code on a world \<open>'w\<close>: it returns a value, or it
  panics with a value; either way the world it leaves behind is recorded.
\<close>

datatype ('a, 'w) outcome = Returns 'a 'w | Panics iface 'w

text \<open>
  The world a log function writes to. \<open>stdout\<close> holds the calls of \<open>fmt.Printf\<close> made so
  far, each as its format string and arguments (the rendering of the verbs is the
  standard library's and is not modelled). The record is extensible: the extension part
  is whatever state a caller's own log function writes to.
\<close>

record world =
  stdout :: "(string \<times> iface list) list"

text \<open>
  \<open>func(ctx context.Context, format string, args ...interface{})\<close>: the body of a log
  function. A field or argument of this type is a \<open>'z logfn option\<close>, \<open>None\<close> being
  \<open>nil\<close>.
\<close>

type_synonym 'z logfn =
  "Context \<Rightarrow> string \<Rightarrow> iface list \<Rightarrow> 'z world_scheme \<Rightarrow> (unit, 'z world_scheme) outcome"

text \<open>\<open>type ContextEnhancer func(ctx context.Context) context.Context\<close>\<close>

type_synonym ContextEnhancer = "Context \<Rightarrow> Context"

subsection \<open>The tracker and its options\<close>

text \<open>\<open>type LatencyTracker struct { logger ...; contextEnhancer ContextEnhancer }\<close>\<close>

record 'z LatencyTracker =
  logger :: "'z logfn option"
  contextEnhancer :: "ContextEnhancer option"

text \<open>
  \<open>type TrackerOption func(*LatencyTracker)\<close>: an option mutates the tracker it is
  given; the embedding returns the mutated tracker. \<open>None\<close> is the \<open>nil\<close> option.
\<close>

type_synonym 'z TrackerOption = "('z LatencyTracker \<Rightarrow> 'z LatencyTracker) option"

definition WithLogger :: "'z logfn option \<Rightarrow> 'z TrackerOption" where
  "WithLogger lg = Some (\<lambda>lt. lt\<lparr>logger := lg\<rparr>)"

definition WithContextEnhancer :: "ContextEnhancer option \<Rightarrow> 'z TrackerOption" where
  "WithContextEnhancer enhancer = Some (\<lambda>lt. lt\<lparr>contextEnhancer := enhancer\<rparr>)"

text \<open>
  \<open>defaultLogger\<close> ignores its context and calls \<open>fmt.Printf(format+"\n", args...)\<close>.
\<close>

definition defaultLogger :: "'z logfn" where
  "defaultLogger c format args w =
     Returns () (w\<lparr>stdout := stdout w @ [(format @ [CHR 0x0A], args)]\<rparr>)"

text \<open>\<open>defaultContextEnhancer\<close> returns \<open>context.Background()\<close> whatever it is given.\<close>

definition defaultContextEnhancer :: ContextEnhancer where
  "defaultContextEnhancer c = Background"

text \<open>
  The loop \<open>for _, opt := range opts { opt(lt) }\<close> of \<open>NewLatencyTracker\<close>. Calling a
  \<open>nil\<close> option panics, and the panic leaves the constructor.
\<close>

fun applyOptions :: "'z LatencyTracker \<Rightarrow> 'z TrackerOption list \<Rightarrow> iface + 'z LatencyTracker" where
  "applyOptions lt [] = Inr lt"
| "applyOptions lt (opt # opts) =
     (case opt of
        None \<Rightarrow> Inl nil_deref
      | Some f \<Rightarrow> applyOptions (f lt) opts)"

definition NewLatencyTracker :: "'z TrackerOption list \<Rightarrow> iface + 'z LatencyTracker" where
  "NewLatencyTracker opts =
     applyOptions \<lparr>logger = Some defaultLogger,
                   contextEnhancer = Some defaultContextEnhancer\<rparr> opts"

subsection \<open>Track\<close>

text \<open>
  \<open>time.Since(t)\<close> of the Go standard library is \<open>time.Now().Sub(t)\<close>; \<open>now\<close>, the reading
  of the clock at the call, is an input of the model. Its result is a \<open>time.Duration\<close>,
  a signed 64-bit count of nanoseconds: \<open>Sub\<close> returns the difference of the two
  instants when it fits, and the smallest or the largest duration when it does not.
  Instants are counted in nanoseconds from the zero value \<open>time.Time{}\<close>.
\<close>

definition minDuration :: int where
  "minDuration = - 9223372036854775808"

definition maxDuration :: int where
  "maxDuration = 9223372036854775807"

definition time_Sub :: "time \<Rightarrow> time \<Rightarrow> int" where
  "time_Sub t u =
     (let d = t - u
      in if d < minDuration then minDuration
         else if maxDuration < d then maxDuration
         else d)"

definition time_Since :: "time \<Rightarrow> time \<Rightarrow> int" where
  "time_Since now t = time_Sub now t"

text \<open>The two format strings of \<open>Track\<close>.\<close>

definition completedFormat :: string where
  "completedFormat = ''[Latency] Name=%s, Duration=%v, Status=completed''"

definition logErrorFormat :: string where
  "logErrorFormat = ''[Latency] Name=%s, Duration=%v, Status=logError, Error=%v''"

text \<open>The package-level variable \<open>var defaultTracker *LatencyTracker\<close>, \<open>nil\<close> at start.\<close>

record 'z globals =
  defaultTracker :: "'z LatencyTracker option"

definition initial_globals :: "'z globals" where
  "initial_globals = \<lparr>defaultTracker = None\<rparr>"

text \<open>A call through a function value of the log-function type: \<open>nil\<close> panics.\<close>

definition call_logger ::
  "'z logfn option \<Rightarrow> Context \<Rightarrow> string \<Rightarrow> iface list \<Rightarrow> 'z world_scheme \<Rightarrow> (unit, 'z world_scheme) outcome" where
  "call_logger lg c format args w =
     (case lg of None \<Rightarrow> Panics nil_deref w | Some f \<Rightarrow> f c format args w)"

text \<open>
  The tail \<open>...; return nil\<close> of the work item: the statement before it has run with
  the given outcome; if it returned, the work item returns the \<open>nil\<close> error, and if it
  panicked, so does the work item.
\<close>

definition return_nil :: "(unit, 'w) outcome \<Rightarrow> (string option, 'w) outcome" where
  "return_nil out = (case out of Returns u w \<Rightarrow> Returns None w | Panics r w \<Rightarrow> Panics r w)"

text \<open>
  What \<open>Track\<close> hands to \<open>threading.GoSafe\<close>: the work item \<open>func() error\<close> (its error is
  \<open>None\<close> for \<open>nil\<close>), and the three options \<open>WithTag\<close>, \<open>WithLog\<close>, \<open>WithRecovery\<close>.
\<close>

record 'z submission =
  work :: "'z world_scheme \<Rightarrow> (string option, 'z world_scheme) outcome"
  tag :: string
  logSink :: "string \<Rightarrow> iface list \<Rightarrow> 'z world_scheme \<Rightarrow> (unit, 'z world_scheme) outcome"
  recovery :: "iface \<Rightarrow> 'z world_scheme \<Rightarrow> (unit, 'z world_scheme) outcome"

text \<open>
  \<open>Track\<close>, statement by statement. It reads and writes the package variable, so the
  globals are passed in and returned; the submission is returned beside them, since
  \<open>Track\<close> does not wait for it. \<open>Track\<close> itself panics in one place only: the call
  \<open>defaultTracker.contextEnhancer(ctx)\<close> through a \<open>nil\<close> field. The variable is written
  only when it was \<open>nil\<close>, and then the enhancer is the default one, so a panic leaves
  the globals as they were.
\<close>

definition Track ::
  "'z globals \<Rightarrow> time \<Rightarrow> Context \<Rightarrow> time \<Rightarrow> string \<Rightarrow> 'z logfn option
     \<Rightarrow> iface + ('z globals \<times> 'z submission)" where
  "Track g now c startTime name lg0 =
     (case (case defaultTracker g of
              None \<Rightarrow> NewLatencyTracker []
            | Some t \<Rightarrow> Inr t) of
        Inl p \<Rightarrow> Inl p
      | Inr dt \<Rightarrow>
          (let lg = (case lg0 of None \<Rightarrow> logger dt | Some f \<Rightarrow> Some f);
               duration = time_Since now startTime
           in case contextEnhancer dt of
                None \<Rightarrow> Inl nil_deref
              | Some enhance \<Rightarrow>
                  (let enhancedCtx = enhance c
                   in Inr (g\<lparr>defaultTracker := Some dt\<rparr>,
                        \<lparr>work = (\<lambda>w.
                            return_nil
                              (call_logger lg enhancedCtx completedFormat
                                 [AString name, ADuration duration] w)),
                         tag = name,
                         logSink = (\<lambda>format args. call_logger lg enhancedCtx format args),
                         recovery = (\<lambda>r.
                            call_logger lg enhancedCtx logErrorFormat
                              [AString name, ADuration duration, r])\<rparr>))))"


subsection \<open>Calls of the package's exported functions, one after another\<close>

text \<open>
  A client of the package can call \<open>NewLatencyTracker\<close> (with the options it builds from
  \<open>WithLogger\<close> and \<open>WithContextEnhancer\<close>) and \<open>Track\<close>. \<open>api_step\<close> is the effect of one
  call on the package variable: the constructor and the options never mention
  \<open>defaultTracker\<close>, so only \<open>Track\<close> can change it; a panic of \<open>Track\<close> leaves it as it
  was. \<open>after_calls\<close> is the package variable after a sequence of calls from the start
  of the process.
\<close>

datatype 'z api_call =
  CallNewLatencyTracker "'z TrackerOption list"
| CallTrack time Context time string "'z logfn option"

fun api_step :: "'z globals \<Rightarrow> 'z api_call \<Rightarrow> 'z globals" where
  "api_step g (CallNewLatencyTracker opts) = g"
| "api_step g (CallTrack now c startTime name lg) =
     (case Track g now c startTime name lg of
        Inl p \<Rightarrow> g
      | Inr (g', s) \<Rightarrow> g')"

definition after_calls :: "'z api_call list \<Rightarrow> 'z globals" where
  "after_calls cs = foldl api_step initial_globals cs"

subsection \<open>Overlapping calls of Track\<close>

text \<open>
  The first two statements of \<open>Track\<close>, executed by several goroutines. A goroutine is at
  the test \<open>defaultTracker == nil\<close> (\<open>AtCheck\<close>), at the assignment
  \<open>defaultTracker = NewLatencyTracker()\<close> (\<open>AtInit\<close>, reached only when its own test found
  \<open>nil\<close>), or past both (\<open>Past\<close>). The code takes no lock and uses no \<open>sync.Once\<close>, so
  the test and the assignment of one goroutine are two steps, and steps of other
  goroutines may fall between them. \<open>built\<close> counts the executions of the assignment.
\<close>

datatype pc = AtCheck | AtInit | Past

record 'z shared =
  var :: "'z LatencyTracker option"
  built :: nat
  pcs :: "pc list"

definition start :: "nat \<Rightarrow> 'z shared" where
  "start n = \<lparr>var = None, built = 0, pcs = replicate n AtCheck\<rparr>"

definition thread_step :: "nat \<Rightarrow> 'z shared \<Rightarrow> 'z shared" where
  "thread_step i s =
     (if i < length (pcs s) then
        (case pcs s ! i of
           AtCheck \<Rightarrow>
             (case var s of
                None \<Rightarrow> s\<lparr>pcs := (pcs s)[i := AtInit]\<rparr>
              | Some t \<Rightarrow> s\<lparr>pcs := (pcs s)[i := Past]\<rparr>)
         | AtInit \<Rightarrow>
             (case NewLatencyTracker [] of
                Inl p \<Rightarrow> s\<lparr>pcs := (pcs s)[i := Past]\<rparr>
              | Inr t \<Rightarrow> s\<lparr>var := Some t, built := Suc (built s), pcs := (pcs s)[i := Past]\<rparr>)
         | Past \<Rightarrow> s)
      else s)"

text \<open>A schedule names the goroutine that takes each step.\<close>

definition run :: "nat list \<Rightarrow> 'z shared \<Rightarrow> 'z shared" where
  "run schedule s = foldl (\<lambda>s i. thread_step i s) s schedule"

text \<open>
  Calls that do not overlap: each goroutine of the list takes both of its steps before
  the next one starts.
\<close>

definition one_after_another :: "nat list \<Rightarrow> nat list" where
  "one_after_another order = concat (map (\<lambda>i. [i, i]) order)"

text \<open>
  The shared state between calls that do not overlap: no goroutine stands at the
  assignment; the assignment has run exactly when the variable is set, and then the
  variable holds the tracker built with no options; a goroutine that is past the two
  statements has seen the variable set.
\<close>

definition quiescent :: "'z shared \<Rightarrow> bool" where
  "quiescent s \<longleftrightarrow>
     AtInit \<notin> set (pcs s) \<and>
     (case var s of
        None \<Rightarrow> built s = 0 \<and> Past \<notin> set (pcs s)
      | Some t \<Rightarrow> built s = 1 \<and>
          t = \<lparr>logger = Some defaultLogger, contextEnhancer = Some defaultContextEnhancer\<rparr>)"

subsection \<open>Log functions a caller can pass\<close>

text \<open>
  Log functions for concrete runs. \<open>captureLogger\<close> appends the line it is given to
  the caller's part of the world and returns. \<open>failingLogger\<close> panics on every call and
  writes nothing.
\<close>

type_synonym captured = "(Context \<times> string \<times> iface list) list"

definition captureLogger :: "captured logfn" where
  "captureLogger c format args w =
     Returns () (w\<lparr>world.more := world.more w @ [(c, format, args)]\<rparr>)"

definition failingLogger :: "captured logfn" where
  "failingLogger c format args w = Panics (AString ''logger failed'') w"


definition empty_world :: "captured world_scheme" where
  "empty_world = \<lparr>stdout = [], \<dots> = []\<rparr>"

section \<open>Properties\<close>

text \<open>C4. The default context enhancer returns the empty background context for every
  input context, independently of the input.\<close>

theorem defaultContextEnhancer_discards:
  "defaultContextEnhancer c = Background \<and> defaultContextEnhancer c = defaultContextEnhancer c'"
  by (simp add: defaultContextEnhancer_def)

subsection \<open>Properties of the constructor\<close>

lemma NewLatencyTracker_Nil:
  "NewLatencyTracker [] = Inr \<lparr>logger = Some defaultLogger, contextEnhancer = Some defaultContextEnhancer\<rparr>"
  by (simp add: NewLatencyTracker_def)






text \<open>C6 fails as stated: \<open>NewLatencyTracker(WithLogger(nil))\<close> returns a tracker whose log
  function is \<open>nil\<close>.\<close>

theorem NewLatencyTracker_nil_field_counterexample:
  "NewLatencyTracker [WithLogger None] =
     Inr \<lparr>logger = None, contextEnhancer = Some defaultContextEnhancer\<rparr>"
  by (simp add: NewLatencyTracker_def WithLogger_def)

lemma applyOptions_non_nil:
  assumes "\<forall>opt \<in> set opts. (\<exists>f. opt = WithLogger (Some f)) \<or> (\<exists>e. opt = WithContextEnhancer (Some e))"
    and "logger lt \<noteq> None" and "contextEnhancer lt \<noteq> None"
  shows "\<exists>lt'. applyOptions lt opts = Inr lt' \<and> logger lt' \<noteq> None \<and> contextEnhancer lt' \<noteq> None"
  using assms
proof (induction opts arbitrary: lt)
  case Nil
  then show ?case by simp
next
  case (Cons opt opts)
  from Cons.prems(1) consider f where "opt = WithLogger (Some f)"
    | e where "opt = WithContextEnhancer (Some e)" by auto
  then show ?case
  proof cases
    case 1
    with Cons.IH [of "lt\<lparr>logger := Some f\<rparr>"] Cons.prems show ?thesis
      by (simp add: WithLogger_def)
  next
    case 2
    with Cons.IH [of "lt\<lparr>contextEnhancer := Some e\<rparr>"] Cons.prems show ?thesis
      by (simp add: WithContextEnhancer_def)
  qed
qed

text \<open>C6, amended. When every option is \<open>WithLogger\<close> or \<open>WithContextEnhancer\<close> applied to
  a function that is not \<open>nil\<close> (no options at all included), the constructor returns a
  tracker, and both of its fields are not \<open>nil\<close>.\<close>

theorem NewLatencyTracker_fields_non_nil:
  assumes "\<forall>opt \<in> set opts. (\<exists>f. opt = WithLogger (Some f)) \<or> (\<exists>e. opt = WithContextEnhancer (Some e))"
  shows "\<exists>lt. NewLatencyTracker opts = Inr lt \<and> logger lt \<noteq> None \<and> contextEnhancer lt \<noteq> None"
  unfolding NewLatencyTracker_def
  by (rule applyOptions_non_nil [OF assms]) simp_all

text \<open>C6, amended, at a sequence that overrides both defaults.\<close>

theorem NewLatencyTracker_fields_non_nil_witness:
  "\<exists>lt. NewLatencyTracker [WithLogger (Some captureLogger), WithContextEnhancer (Some id)] = Inr lt \<and>
        logger lt \<noteq> None \<and> contextEnhancer lt \<noteq> None"
proof -
  have h: "\<forall>opt \<in> set [WithLogger (Some captureLogger), WithContextEnhancer (Some id)].
             (\<exists>f. opt = WithLogger (Some f)) \<or> (\<exists>e. opt = WithContextEnhancer (Some e))"
    by auto
  from NewLatencyTracker_fields_non_nil [OF h] show ?thesis .
qed

subsection \<open>Properties of Track\<close>

text \<open>The duration that \<open>time.Since\<close> returns, by the size of the difference.\<close>

lemma time_Since_cases:
  "(minDuration \<le> now - t \<and> now - t \<le> maxDuration \<longrightarrow> time_Since now t = now - t) \<and>
   (now - t < minDuration \<longrightarrow> time_Since now t = minDuration) \<and>
   (maxDuration < now - t \<longrightarrow> time_Since now t = maxDuration) \<and>
   (now < t \<longrightarrow> time_Since now t < 0) \<and>
   (t \<le> now \<longrightarrow> 0 \<le> time_Since now t)"
  by (simp add: time_Since_def time_Sub_def Let_def minDuration_def maxDuration_def)

text \<open>
  \<open>Track\<close> with the constructor call evaluated: \<open>dt\<close> is the tracker that the package
  variable holds after the first two statements, \<open>lg\<close> the log function resolved from
  the argument and that tracker.
\<close>

lemma Track_unfold:
  "Track g now c startTime name lg0 =
     (let dt = (case defaultTracker g of
                  None \<Rightarrow> \<lparr>logger = Some defaultLogger,
                            contextEnhancer = Some defaultContextEnhancer\<rparr>
                | Some t \<Rightarrow> t);
          lg = (case lg0 of None \<Rightarrow> logger dt | Some f \<Rightarrow> Some f)
      in case contextEnhancer dt of
           None \<Rightarrow> Inl nil_deref
         | Some enhance \<Rightarrow>
             Inr (g\<lparr>defaultTracker := Some dt\<rparr>,
                  \<lparr>work = (\<lambda>w. return_nil
                                  (call_logger lg (enhance c) completedFormat
                                     [AString name, ADuration (time_Since now startTime)] w)),
                   tag = name,
                   logSink = (\<lambda>format args. call_logger lg (enhance c) format args),
                   recovery = (\<lambda>r. call_logger lg (enhance c) logErrorFormat
                                  [AString name, ADuration (time_Since now startTime), r])\<rparr>))"
  by (simp add: Track_def NewLatencyTracker_Nil Let_def split: option.split)

lemma Track_InrE:
  assumes "Track g now c startTime name lg0 = Inr (g', s)"
  obtains dt enhance lg where
    "dt = (case defaultTracker g of
             None \<Rightarrow> \<lparr>logger = Some defaultLogger, contextEnhancer = Some defaultContextEnhancer\<rparr>
           | Some t \<Rightarrow> t)"
    and "contextEnhancer dt = Some enhance"
    and "lg = (case lg0 of None \<Rightarrow> logger dt | Some f \<Rightarrow> Some f)"
    and "g' = g\<lparr>defaultTracker := Some dt\<rparr>"
    and "\<And>w. work s w =
           return_nil (call_logger lg (enhance c) completedFormat
                         [AString name, ADuration (time_Since now startTime)] w)"
    and "tag s = name"
    and "\<And>format args w. logSink s format args w = call_logger lg (enhance c) format args w"
    and "\<And>r w. recovery s r w =
           call_logger lg (enhance c) logErrorFormat
             [AString name, ADuration (time_Since now startTime), r] w"
    and "\<And>c2. enhance c2 = enhance c \<Longrightarrow> Track g now c2 startTime name lg0 = Inr (g', s)"
proof -
  define dt where
    "dt = (case defaultTracker g of
             None \<Rightarrow> \<lparr>logger = Some defaultLogger, contextEnhancer = Some defaultContextEnhancer\<rparr>
           | Some t \<Rightarrow> t)"
  define lg where "lg = (case lg0 of None \<Rightarrow> logger dt | Some f \<Rightarrow> Some f)"
  from assms obtain enhance where e: "contextEnhancer dt = Some enhance"
    by (cases "contextEnhancer dt") (simp_all add: Track_unfold dt_def Let_def)
  have u: "Track g now c' startTime name lg0 =
      Inr (g\<lparr>defaultTracker := Some dt\<rparr>,
       \<lparr>work = (\<lambda>w. return_nil (call_logger lg (enhance c') completedFormat
                               [AString name, ADuration (time_Since now startTime)] w)),
        tag = name,
        logSink = (\<lambda>format args. call_logger lg (enhance c') format args),
        recovery = (\<lambda>r. call_logger lg (enhance c') logErrorFormat
                               [AString name, ADuration (time_Since now startTime), r])\<rparr>)" for c'
    using e by (simp add: Track_unfold Let_def dt_def [symmetric] lg_def [symmetric])
  from assms u [of c] have s: "(g', s) =
      (g\<lparr>defaultTracker := Some dt\<rparr>,
       \<lparr>work = (\<lambda>w. return_nil (call_logger lg (enhance c) completedFormat
                               [AString name, ADuration (time_Since now startTime)] w)),
        tag = name,
        logSink = (\<lambda>format args. call_logger lg (enhance c) format args),
        recovery = (\<lambda>r. call_logger lg (enhance c) logErrorFormat
                               [AString name, ADuration (time_Since now startTime), r])\<rparr>)"
    by simp
  have same: "Track g now c2 startTime name lg0 = Inr (g', s)" if "enhance c2 = enhance c" for c2
    using u [of c2] s that by simp
  show thesis
  proof (rule that [of dt enhance lg])
    show "\<And>c2. enhance c2 = enhance c \<Longrightarrow> Track g now c2 startTime name lg0 = Inr (g', s)"
      by (rule same)
  qed (use e s dt_def lg_def in simp_all)
qed


text \<open>
  When the package variable is \<open>nil\<close> or holds the tracker built with no options, \<open>Track\<close>
  returns, and this is what it returns.
\<close>

lemma Track_default_state:
  assumes "defaultTracker g = None \<or>
           defaultTracker g = Some \<lparr>logger = Some defaultLogger, contextEnhancer = Some defaultContextEnhancer\<rparr>"
  shows "Track g now c startTime name lg0 =
          Inr (g\<lparr>defaultTracker := Some \<lparr>logger = Some defaultLogger, contextEnhancer = Some defaultContextEnhancer\<rparr>\<rparr>,
               \<lparr>work = (\<lambda>w. return_nil
                               (call_logger (case lg0 of None \<Rightarrow> Some defaultLogger | Some f \<Rightarrow> Some f)
                                  Background completedFormat
                                  [AString name, ADuration (time_Since now startTime)] w)),
                tag = name,
                logSink = (\<lambda>format args. call_logger (case lg0 of None \<Rightarrow> Some defaultLogger | Some f \<Rightarrow> Some f)
                               Background format args),
                recovery = (\<lambda>r. call_logger (case lg0 of None \<Rightarrow> Some defaultLogger | Some f \<Rightarrow> Some f)
                               Background logErrorFormat
                               [AString name, ADuration (time_Since now startTime), r])\<rparr>)"
  using assms
  by (cases lg0) (auto simp: Track_unfold Let_def defaultContextEnhancer_def)

text \<open>
  Whatever calls a client has made, the package variable is \<open>nil\<close> or holds the tracker
  built with no options.
\<close>

lemma after_calls_state:
  "defaultTracker (after_calls cs) = None \<or>
   defaultTracker (after_calls cs) =
     Some \<lparr>logger = Some defaultLogger, contextEnhancer = Some defaultContextEnhancer\<rparr>"
proof (induction cs rule: rev_induct)
  case Nil
  show ?case by (simp add: after_calls_def initial_globals_def)
next
  case (snoc call cs)
  show ?case
  proof (cases call)
    case (CallNewLatencyTracker opts)
    with snoc show ?thesis by (simp add: after_calls_def)
  next
    case (CallTrack now c startTime name lg)
    with Track_default_state [OF snoc, of now c startTime name lg]
    show ?thesis by (simp add: after_calls_def)
  qed
qed

lemma Track_after_calls:
  "Track (after_calls cs) now c startTime name lg0 =
     Inr (\<lparr>defaultTracker = Some \<lparr>logger = Some defaultLogger, contextEnhancer = Some defaultContextEnhancer\<rparr>\<rparr>,
          \<lparr>work = (\<lambda>w. return_nil
                          (call_logger (case lg0 of None \<Rightarrow> Some defaultLogger | Some f \<Rightarrow> Some f)
                             Background completedFormat
                             [AString name, ADuration (time_Since now startTime)] w)),
           tag = name,
           logSink = (\<lambda>format args. call_logger (case lg0 of None \<Rightarrow> Some defaultLogger | Some f \<Rightarrow> Some f)
                          Background format args),
           recovery = (\<lambda>r. call_logger (case lg0 of None \<Rightarrow> Some defaultLogger | Some f \<Rightarrow> Some f)
                          Background logErrorFormat
                          [AString name, ADuration (time_Since now startTime), r])\<rparr>)"
  by (simp add: Track_default_state [OF after_calls_state])

text \<open>C1 fails as stated: the duration is not always \<open>now - startTime\<close>. For a start time
  more than about 292 years before the call, here the zero value \<open>time.Time{}\<close> for a
  call in the year 2000, \<open>time.Since\<close> returns the largest duration, and that is what the
  log line carries.\<close>

theorem Track_duration_saturates_counterexample:
  "case Track initial_globals 63082281600000000000 Background 0 ''op'' (Some captureLogger) of
     Inl p \<Rightarrow> False
   | Inr (g', s) \<Rightarrow>
       work s empty_world =
         Returns None
           \<lparr>stdout = [],
            \<dots> = [(Background, completedFormat,
                   [AString ''op'', ADuration 9223372036854775807])]\<rparr> \<and>
       (63082281600000000000 :: int) - 0 \<noteq> 9223372036854775807"
  by (simp add: Track_default_state initial_globals_def call_logger_def captureLogger_def
        empty_world_def return_nil_def time_Since_def time_Sub_def Let_def
        minDuration_def maxDuration_def)

text \<open>C1, amended. The log function that \<open>Track\<close> resolves is called with the enhanced
  context, the operation name and the duration \<open>d\<close> that \<open>time.Since(startTime)\<close> returned
  at the call; the completed line and the logError line both carry \<open>d\<close> as it was
  computed, and \<open>Track\<close> neither validates nor clamps it. \<open>d\<close> is \<open>now - startTime\<close> whenever
  that difference fits a signed 64-bit count of nanoseconds, and the nearest bound of
  that range otherwise. In particular, when \<open>startTime\<close> lies after \<open>now\<close>, \<open>d\<close> is
  negative.\<close>

theorem Track_duration_passed_through:
  assumes "Track g now c startTime name lg0 = Inr (g', s)"
  shows "\<exists>dt enhance lg d.
           dt = (case defaultTracker g of
                   None \<Rightarrow> \<lparr>logger = Some defaultLogger,
                             contextEnhancer = Some defaultContextEnhancer\<rparr>
                 | Some t \<Rightarrow> t) \<and>
           contextEnhancer dt = Some enhance \<and>
           lg = (case lg0 of None \<Rightarrow> logger dt | Some f \<Rightarrow> Some f) \<and>
           d = time_Since now startTime \<and>
           (\<forall>w. work s w =
                  return_nil (call_logger lg (enhance c) completedFormat
                                [AString name, ADuration d] w)) \<and>
           (\<forall>r w. recovery s r w =
                  call_logger lg (enhance c) logErrorFormat [AString name, ADuration d, r] w) \<and>
           (minDuration \<le> now - startTime \<and> now - startTime \<le> maxDuration \<longrightarrow>
              d = now - startTime) \<and>
           (now - startTime < minDuration \<longrightarrow> d = minDuration) \<and>
           (maxDuration < now - startTime \<longrightarrow> d = maxDuration) \<and>
           (now < startTime \<longrightarrow> d < 0)"
  using assms
proof (rule Track_InrE)
  fix dt enhance and lg :: "'a logfn option"
  assume "dt = (case defaultTracker g of
             None \<Rightarrow> \<lparr>logger = Some defaultLogger, contextEnhancer = Some defaultContextEnhancer\<rparr>
           | Some t \<Rightarrow> t)"
    and "contextEnhancer dt = Some enhance"
    and "lg = (case lg0 of None \<Rightarrow> logger dt | Some f \<Rightarrow> Some f)"
    and "\<And>w. work s w =
           return_nil (call_logger lg (enhance c) completedFormat
                         [AString name, ADuration (time_Since now startTime)] w)"
    and "\<And>r w. recovery s r w =
           call_logger lg (enhance c) logErrorFormat
             [AString name, ADuration (time_Since now startTime), r] w"
  with time_Since_cases [of now startTime] show ?thesis
    by (intro exI [of _ dt] exI [of _ enhance] exI [of _ lg]
          exI [of _ "time_Since now startTime"]) simp
qed

text \<open>C1, amended, at a start time 60ns after the call: the difference fits, and the
  caller's log function receives the line with the duration -60.\<close>

theorem Track_duration_passed_through_witness:
  "\<exists>g' s. Track initial_globals 40 (WithValue Background ''trace'' ''t1'') 100 ''op''
             (Some captureLogger) = Inr (g', s) \<and>
          minDuration \<le> 40 - 100 \<and> 40 - 100 \<le> maxDuration \<and> (40::int) < 100 \<and>
          (\<forall>w. work s w =
                 return_nil (captureLogger Background completedFormat
                               [AString ''op'', ADuration (- 60)] w)) \<and>
          work s empty_world =
            Returns None
              \<lparr>stdout = [],
               \<dots> = [(Background, completedFormat, [AString ''op'', ADuration (- 60)])]\<rparr>"
proof -
  obtain g' s where
    h: "Track initial_globals 40 (WithValue Background ''trace'' ''t1'') 100 ''op''
          (Some captureLogger) = Inr (g', s)"
    by (simp add: Track_default_state initial_globals_def)
  have r: "minDuration \<le> 40 - 100 \<and> 40 - 100 \<le> maxDuration" and f: "(40::int) < 100"
    by (simp_all add: minDuration_def maxDuration_def)
  from Track_duration_passed_through [OF h] r f
  have w: "\<forall>w. work s w =
                 return_nil (captureLogger Background completedFormat
                               [AString ''op'', ADuration (- 60)] w)"
    by (auto simp: initial_globals_def call_logger_def defaultContextEnhancer_def)
  then have "work s empty_world =
            Returns None
              \<lparr>stdout = [],
               \<dots> = [(Background, completedFormat, [AString ''op'', ADuration (- 60)])]\<rparr>"
    by (simp add: captureLogger_def empty_world_def return_nil_def)
  with h r f w show ?thesis
    by (intro exI [of _ g'] exI [of _ s]) simp
qed

text \<open>C2. The log function that receives the line is the \<open>logger\<close> argument when that
  is not \<open>nil\<close>, whatever the tracker holds; when the argument is \<open>nil\<close> it is the log
  function of the default tracker (the one already in the package variable, if there
  was one).\<close>

theorem Track_logger_argument_takes_precedence:
  assumes "Track g now c startTime name lg0 = Inr (g', s)"
  shows "\<exists>dt c'.
           defaultTracker g' = Some dt \<and>
           (\<forall>t. defaultTracker g = Some t \<longrightarrow> dt = t) \<and>
           (\<forall>f. lg0 = Some f \<longrightarrow>
              (\<forall>w. work s w =
                     return_nil (f c' completedFormat
                                   [AString name, ADuration (time_Since now startTime)] w))) \<and>
           (lg0 = None \<longrightarrow>
              (\<forall>w. work s w =
                     return_nil (call_logger (logger dt) c' completedFormat
                                   [AString name, ADuration (time_Since now startTime)] w)))"
  using assms
proof (rule Track_InrE)
  fix dt enhance and lg :: "'a logfn option"
  assume "dt = (case defaultTracker g of
             None \<Rightarrow> \<lparr>logger = Some defaultLogger, contextEnhancer = Some defaultContextEnhancer\<rparr>
           | Some t \<Rightarrow> t)"
    and "lg = (case lg0 of None \<Rightarrow> logger dt | Some f \<Rightarrow> Some f)"
    and "g' = g\<lparr>defaultTracker := Some dt\<rparr>"
    and "\<And>w. work s w =
           return_nil (call_logger lg (enhance c) completedFormat
                         [AString name, ADuration (time_Since now startTime)] w)"
  then show ?thesis
    by (intro exI [of _ dt] exI [of _ "enhance c"])
      (cases "defaultTracker g"; simp add: call_logger_def)
qed

text \<open>C2, on the first call of a process. With \<open>captureLogger\<close> passed, that function
  gets the line and standard output stays empty; with \<open>nil\<close> passed, the line goes to
  the default log function, which prints it.\<close>

theorem Track_logger_argument_takes_precedence_witness:
  "(\<exists>g' s. Track initial_globals 100 Background 40 ''op'' (Some captureLogger) = Inr (g', s) \<and>
           work s empty_world =
             Returns None
               \<lparr>stdout = [],
                \<dots> = [(Background, completedFormat, [AString ''op'', ADuration 60])]\<rparr> \<and>
           (\<exists>c'. \<forall>w. work s w =
                     return_nil (captureLogger c' completedFormat
                                   [AString ''op'', ADuration (time_Since 100 40)] w))) \<and>
   (\<exists>g' s. Track initial_globals 100 Background 40 ''op'' None = Inr (g', s) \<and>
           work s empty_world =
             Returns None
               \<lparr>stdout = [(completedFormat @ [CHR 0x0A], [AString ''op'', ADuration 60])],
                \<dots> = []\<rparr> \<and>
           (\<exists>dt c'. defaultTracker g' = Some dt \<and>
                (\<forall>w :: captured world_scheme. work s w =
                     return_nil (call_logger (logger dt) c' completedFormat
                                   [AString ''op'', ADuration (time_Since 100 40)] w))))"
proof (rule conjI)
  obtain g' s where
    h: "Track initial_globals 100 Background 40 ''op'' (Some captureLogger) = Inr (g', s)"
    by (simp add: Track_default_state initial_globals_def)
  have e: "work s empty_world =
            Returns None
              \<lparr>stdout = [],
               \<dots> = [(Background, completedFormat, [AString ''op'', ADuration 60])]\<rparr>"
    using h
    by (auto simp: Track_default_state initial_globals_def call_logger_def captureLogger_def
          empty_world_def return_nil_def time_Since_def time_Sub_def Let_def
          minDuration_def maxDuration_def)
  from Track_logger_argument_takes_precedence [OF h]
  have "\<exists>c'. \<forall>w. work s w =
           return_nil (captureLogger c' completedFormat
                         [AString ''op'', ADuration (time_Since 100 40)] w)"
    by auto
  with h e show "\<exists>g' s. Track initial_globals 100 Background 40 ''op'' (Some captureLogger) = Inr (g', s) \<and>
           work s empty_world =
             Returns None
               \<lparr>stdout = [],
                \<dots> = [(Background, completedFormat, [AString ''op'', ADuration 60])]\<rparr> \<and>
           (\<exists>c'. \<forall>w. work s w =
                     return_nil (captureLogger c' completedFormat
                                   [AString ''op'', ADuration (time_Since 100 40)] w))"
    by (intro exI [of _ g'] exI [of _ s]) simp
next
  obtain g' and s :: "captured submission" where
    h: "Track initial_globals 100 Background 40 ''op'' None = Inr (g', s)"
    by (simp add: Track_default_state initial_globals_def)
  have e: "work s empty_world =
             Returns None
               \<lparr>stdout = [(completedFormat @ [CHR 0x0A], [AString ''op'', ADuration 60])],
                \<dots> = []\<rparr>"
    using h
    by (auto simp: Track_default_state initial_globals_def call_logger_def defaultLogger_def
          empty_world_def return_nil_def time_Since_def time_Sub_def Let_def
          minDuration_def maxDuration_def)
  from Track_logger_argument_takes_precedence [OF h]
  have "\<exists>dt c'. defaultTracker g' = Some dt \<and>
                (\<forall>w. work s w =
                     return_nil (call_logger (logger dt) c' completedFormat
                                   [AString ''op'', ADuration (time_Since 100 40)] w))"
    by auto
  with h e show "\<exists>g' s. Track initial_globals 100 Background 40 ''op'' None = Inr (g', s) \<and>
           work s empty_world =
             Returns None
               \<lparr>stdout = [(completedFormat @ [CHR 0x0A], [AString ''op'', ADuration 60])],
                \<dots> = []\<rparr> \<and>
           (\<exists>dt c'. defaultTracker g' = Some dt \<and>
                (\<forall>w :: captured world_scheme. work s w =
                     return_nil (call_logger (logger dt) c' completedFormat
                                   [AString ''op'', ADuration (time_Since 100 40)] w)))"
    by (intro exI [of _ g'] exI [of _ s]) simp
qed

text \<open>C3. The context with which the resolved log function is called, in the completed
  line, in the logError line and through the log sink, is the result of applying the
  tracker's context enhancer to the caller's context. The caller's context itself never
  reaches the log function: a call with any other context that the enhancer maps to the
  same result returns the very same submission, and in a running process, where the
  enhancer is the default one, the submission does not depend on the caller's context
  at all.\<close>

theorem Track_logger_receives_enhanced_context:
  assumes "Track g now c startTime name lg0 = Inr (g', s)"
  shows "\<exists>dt enhance lg.
           dt = (case defaultTracker g of
                   None \<Rightarrow> \<lparr>logger = Some defaultLogger,
                             contextEnhancer = Some defaultContextEnhancer\<rparr>
                 | Some t \<Rightarrow> t) \<and>
           contextEnhancer dt = Some enhance \<and>
           lg = (case lg0 of None \<Rightarrow> logger dt | Some f \<Rightarrow> Some f) \<and>
           (\<forall>w. work s w =
                  return_nil (call_logger lg (enhance c) completedFormat
                                [AString name, ADuration (time_Since now startTime)] w)) \<and>
           (\<forall>r w. recovery s r w =
                  call_logger lg (enhance c) logErrorFormat
                    [AString name, ADuration (time_Since now startTime), r] w) \<and>
           (\<forall>format args w. logSink s format args w =
                  call_logger lg (enhance c) format args w) \<and>
           (\<forall>c2. enhance c2 = enhance c \<longrightarrow>
                  Track g now c2 startTime name lg0 = Inr (g', s)) \<and>
           (\<forall>cs c2. g = after_calls cs \<longrightarrow>
                  enhance c = Background \<and>
                  Track g now c2 startTime name lg0 = Inr (g', s))"
  using assms
proof (rule Track_InrE)
  fix dt enhance and lg :: "'a logfn option"
  assume dt: "dt = (case defaultTracker g of
             None \<Rightarrow> \<lparr>logger = Some defaultLogger, contextEnhancer = Some defaultContextEnhancer\<rparr>
           | Some t \<Rightarrow> t)"
    and e: "contextEnhancer dt = Some enhance"
    and lg: "lg = (case lg0 of None \<Rightarrow> logger dt | Some f \<Rightarrow> Some f)"
    and w: "\<And>w. work s w =
           return_nil (call_logger lg (enhance c) completedFormat
                         [AString name, ADuration (time_Since now startTime)] w)"
    and l: "\<And>format args w. logSink s format args w = call_logger lg (enhance c) format args w"
    and r: "\<And>r w. recovery s r w =
           call_logger lg (enhance c) logErrorFormat
             [AString name, ADuration (time_Since now startTime), r] w"
    and same: "\<And>c2. enhance c2 = enhance c \<Longrightarrow> Track g now c2 startTime name lg0 = Inr (g', s)"
  have d: "enhance = defaultContextEnhancer" if "g = after_calls cs" for cs
  proof -
    from after_calls_state [of cs] dt that
    have "dt = \<lparr>logger = Some defaultLogger, contextEnhancer = Some defaultContextEnhancer\<rparr>"
      by auto
    with e show ?thesis by simp
  qed
  have p: "enhance c = Background \<and> Track g now c2 startTime name lg0 = Inr (g', s)"
    if "g = after_calls cs" for cs c2
  proof
    from d [OF that] show "enhance c = Background" by (simp add: defaultContextEnhancer_def)
    from d [OF that] have "enhance c2 = enhance c" by (simp add: defaultContextEnhancer_def)
    then show "Track g now c2 startTime name lg0 = Inr (g', s)" by (rule same)
  qed
  from dt e lg w l r same p show ?thesis
    by (intro exI [of _ dt] exI [of _ enhance] exI [of _ lg]) simp
qed

text \<open>C3, for a caller whose context carries a trace id: the log function is called
  with the background context, and a caller that passes the background context itself
  gets the same submission.\<close>

theorem Track_logger_receives_enhanced_context_witness:
  "\<exists>g' s. Track (after_calls []) 100 (WithValue Background ''trace'' ''t1'') 40 ''op''
             (Some captureLogger) = Inr (g', s) \<and>
          (\<forall>w. work s w =
                 return_nil (captureLogger Background completedFormat
                               [AString ''op'', ADuration (time_Since 100 40)] w)) \<and>
          work s empty_world =
            Returns None
              \<lparr>stdout = [],
               \<dots> = [(Background, completedFormat, [AString ''op'', ADuration 60])]\<rparr> \<and>
          Track (after_calls []) 100 Background 40 ''op'' (Some captureLogger) = Inr (g', s)"
proof -
  obtain g' s where
    h: "Track (after_calls []) 100 (WithValue Background ''trace'' ''t1'') 40 ''op''
          (Some captureLogger) = Inr (g', s)"
    by (simp add: Track_after_calls)
  from Track_logger_receives_enhanced_context [OF h]
  have w: "\<forall>w. work s w =
                 return_nil (captureLogger Background completedFormat
                               [AString ''op'', ADuration (time_Since 100 40)] w)"
    and t: "Track (after_calls []) 100 Background 40 ''op'' (Some captureLogger) = Inr (g', s)"
    by (auto simp: call_logger_def)
  from w have "work s empty_world =
            Returns None
              \<lparr>stdout = [],
               \<dots> = [(Background, completedFormat, [AString ''op'', ADuration 60])]\<rparr>"
    by (simp add: captureLogger_def empty_world_def return_nil_def time_Since_def time_Sub_def
          Let_def minDuration_def maxDuration_def)
  with h w t show ?thesis
    by (intro exI [of _ g'] exI [of _ s]) simp
qed






text \<open>C10. \<open>Track\<close> takes its log function and its context enhancer from the package
  variable alone. The tracker it puts there is built with no options and holds the
  default log function and the default enhancer; a call of \<open>NewLatencyTracker\<close>, with
  any options, leaves the variable as it was. So after any sequence of calls of
  \<open>NewLatencyTracker\<close> and \<open>Track\<close>, a call of \<open>Track\<close> leaves the default tracker in the
  variable and submits work that uses the default enhancer and, unless a logger is
  passed, the default log function.\<close>

theorem Track_consults_default_tracker_only:
  "NewLatencyTracker [] =
     Inr \<lparr>logger = Some defaultLogger, contextEnhancer = Some defaultContextEnhancer\<rparr> \<and>
   after_calls (cs @ [CallNewLatencyTracker opts]) = after_calls cs \<and>
   (defaultTracker (after_calls cs) = None \<or>
    defaultTracker (after_calls cs) =
      Some \<lparr>logger = Some defaultLogger, contextEnhancer = Some defaultContextEnhancer\<rparr>) \<and>
   Track (after_calls cs) now c startTime name lg0 =
     Inr (\<lparr>defaultTracker =
             Some \<lparr>logger = Some defaultLogger, contextEnhancer = Some defaultContextEnhancer\<rparr>\<rparr>,
          \<lparr>work = (\<lambda>w. return_nil
                          (call_logger (case lg0 of None \<Rightarrow> Some defaultLogger | Some f \<Rightarrow> Some f)
                             (defaultContextEnhancer c) completedFormat
                             [AString name, ADuration (time_Since now startTime)] w)),
           tag = name,
           logSink = (\<lambda>format args.
                        call_logger (case lg0 of None \<Rightarrow> Some defaultLogger | Some f \<Rightarrow> Some f)
                          (defaultContextEnhancer c) format args),
           recovery = (\<lambda>r.
                        call_logger (case lg0 of None \<Rightarrow> Some defaultLogger | Some f \<Rightarrow> Some f)
                          (defaultContextEnhancer c) logErrorFormat
                          [AString name, ADuration (time_Since now startTime), r])\<rparr>)"
proof (intro conjI)
  show "after_calls (cs @ [CallNewLatencyTracker opts]) = after_calls cs"
    by (simp add: after_calls_def)
qed (simp_all add: NewLatencyTracker_Nil after_calls_state Track_after_calls
       defaultContextEnhancer_def)

text \<open>C10, after trackers were built with \<open>nil\<close> fields and with a failing log
  function: \<open>Track\<close> with a \<open>nil\<close> logger still prints through the default log function.\<close>

theorem Track_consults_default_tracker_only_witness:
  "case Track (after_calls
                 [CallNewLatencyTracker [WithLogger None, WithContextEnhancer None],
                  CallTrack 7 Background 3 ''first'' (Some failingLogger),
                  CallNewLatencyTracker [WithLogger (Some failingLogger)]])
          100 (WithValue Background ''trace'' ''t1'') 40 ''op'' None of
     Inl p \<Rightarrow> False
   | Inr (g', s) \<Rightarrow>
       g' = \<lparr>defaultTracker =
               Some \<lparr>logger = Some defaultLogger,
                     contextEnhancer = Some defaultContextEnhancer\<rparr>\<rparr> \<and>
       work s empty_world =
         Returns None
           \<lparr>stdout = [(completedFormat @ [CHR 0x0A], [AString ''op'', ADuration 60])],
            \<dots> = []\<rparr>"
  using Track_consults_default_tracker_only
          [of "[CallNewLatencyTracker [WithLogger None, WithContextEnhancer None],
                CallTrack 7 Background 3 ''first'' (Some failingLogger),
                CallNewLatencyTracker [WithLogger (Some failingLogger)]]"
              "[]" 100 "WithValue Background ''trace'' ''t1''" 40 "''op''" None]
  apply (elim conjE)
  apply (simp only: sum.case prod.case)
  apply (simp add: call_logger_def defaultLogger_def return_nil_def empty_world_def
        defaultContextEnhancer_def time_Since_def time_Sub_def Let_def
        minDuration_def maxDuration_def)
  done

subsection \<open>Properties of overlapping calls\<close>

text \<open>The steps of one goroutine, case by case.\<close>

lemma thread_step_AtCheck_None:
  "i < length (pcs s) \<Longrightarrow> pcs s ! i = AtCheck \<Longrightarrow> var s = None \<Longrightarrow>
     thread_step i s = s\<lparr>pcs := (pcs s)[i := AtInit]\<rparr>"
  by (simp add: thread_step_def)

lemma thread_step_AtCheck_Some:
  "i < length (pcs s) \<Longrightarrow> pcs s ! i = AtCheck \<Longrightarrow> var s = Some t \<Longrightarrow>
     thread_step i s = s\<lparr>pcs := (pcs s)[i := Past]\<rparr>"
  by (simp add: thread_step_def)

lemma thread_step_AtInit:
  "i < length (pcs s) \<Longrightarrow> pcs s ! i = AtInit \<Longrightarrow>
     thread_step i s =
       s\<lparr>var := Some \<lparr>logger = Some defaultLogger, contextEnhancer = Some defaultContextEnhancer\<rparr>,
         built := Suc (built s), pcs := (pcs s)[i := Past]\<rparr>"
  by (simp add: thread_step_def NewLatencyTracker_Nil)

lemma thread_step_Past:
  "i < length (pcs s) \<Longrightarrow> pcs s ! i = Past \<Longrightarrow> thread_step i s = s"
  by (simp add: thread_step_def)

lemma thread_step_out_of_range: "\<not> i < length (pcs s) \<Longrightarrow> thread_step i s = s"
  by (simp add: thread_step_def)

lemma start_2: "(start 2 :: 'z shared) = \<lparr>var = None, built = 0, pcs = [AtCheck, AtCheck]\<rparr>"
  by (simp add: start_def numeral_2_eq_2)

text \<open>C9, at two overlapping first calls. The construction is to run at most once
  even when \<open>Track\<close> is called concurrently. Nothing in \<open>Track\<close> guards it, and it does
  not: both goroutines find the variable \<open>nil\<close> before either assigns it (after the
  schedule 0, 1 both stand at the assignment), and then both build a tracker and assign
  it, so the construction has run twice.\<close>

theorem overlapping_first_calls_build_twice:
  "pcs (run [0, 1] (start 2 :: unit shared)) = [AtInit, AtInit] \<and>
   built (run [0, 1, 0, 1] (start 2 :: unit shared)) = 2"
  by (simp add: run_def start_2 thread_step_def NewLatencyTracker_Nil)

lemma thread_step_var_stays: "var s \<noteq> None \<Longrightarrow> var (thread_step i s) \<noteq> None"
proof (cases "i < length (pcs s)")
  case False
  assume "var s \<noteq> None"
  with False show ?thesis by (simp add: thread_step_out_of_range)
next
  case True
  assume v: "var s \<noteq> None"
  show ?thesis
  proof (cases "pcs s ! i")
    case AtCheck
    from v obtain t where "var s = Some t" by auto
    with True AtCheck v show ?thesis by (simp add: thread_step_AtCheck_Some)
  next
    case AtInit
    with True show ?thesis by (simp add: thread_step_AtInit)
  next
    case Past
    with True v show ?thesis by (simp add: thread_step_Past)
  qed
qed

lemma run_Nil: "run [] s = s"
  by (simp add: run_def)

lemma run_Cons: "run (i # schedule) s = run schedule (thread_step i s)"
  by (simp add: run_def)

lemma run_var_stays: "var s \<noteq> None \<Longrightarrow> var (run schedule s) \<noteq> None"
proof (induction schedule arbitrary: s)
  case Nil
  then show ?case by (simp add: run_Nil)
next
  case (Cons i schedule)
  from Cons.prems have "var (thread_step i s) \<noteq> None" by (rule thread_step_var_stays)
  then show ?case unfolding run_Cons by (rule Cons.IH)
qed

lemma quiescent_start: "quiescent (start n)"
  by (simp add: quiescent_def start_def)

lemma not_in_update: "y \<notin> set xs \<Longrightarrow> y \<noteq> x \<Longrightarrow> y \<notin> set (xs[i := x])"
  using set_update_subset_insert [of xs i x] by auto

lemma update_twice: "xs[i := a, i := b] = xs[i := b]"
  by simp

lemma call_from_nil:
  assumes "i < length (pcs s)" and "pcs s ! i = AtCheck" and "var s = None"
  shows "thread_step i (thread_step i s) =
           s\<lparr>var := Some \<lparr>logger = Some defaultLogger, contextEnhancer = Some defaultContextEnhancer\<rparr>,
             built := Suc (built s), pcs := (pcs s)[i := Past]\<rparr>"
proof -
  let ?s1 = "s\<lparr>pcs := (pcs s)[i := AtInit]\<rparr>"
  from assms have 1: "thread_step i s = ?s1" by (rule thread_step_AtCheck_None)
  from assms(1) have "i < length (pcs ?s1)" and "pcs ?s1 ! i = AtInit" by simp_all
  then have "thread_step i ?s1 =
      ?s1\<lparr>var := Some \<lparr>logger = Some defaultLogger, contextEnhancer = Some defaultContextEnhancer\<rparr>,
          built := Suc (built ?s1), pcs := (pcs ?s1)[i := Past]\<rparr>"
    by (rule thread_step_AtInit)
  with 1 show ?thesis by simp
qed

lemma call_from_set:
  assumes "i < length (pcs s)" and "pcs s ! i = AtCheck" and "var s = Some t"
  shows "thread_step i (thread_step i s) = s\<lparr>pcs := (pcs s)[i := Past]\<rparr>"
proof -
  let ?s1 = "s\<lparr>pcs := (pcs s)[i := Past]\<rparr>"
  from assms have 1: "thread_step i s = ?s1" by (rule thread_step_AtCheck_Some)
  from assms(1) have "i < length (pcs ?s1)" and "pcs ?s1 ! i = Past" by simp_all
  then have "thread_step i ?s1 = ?s1" by (rule thread_step_Past)
  with 1 show ?thesis by simp
qed

lemma quiescent_call:
  assumes "quiescent s"
  shows "quiescent (thread_step i (thread_step i s))"
proof (cases "i < length (pcs s)")
  case False
  with assms show ?thesis by (simp add: thread_step_out_of_range)
next
  case True
  show ?thesis
  proof (cases "pcs s ! i")
    case AtCheck
    show ?thesis
    proof (cases "var s")
      case None
      from assms have "AtInit \<notin> set (pcs s)" by (simp add: quiescent_def)
      then have "AtInit \<notin> set ((pcs s)[i := Past])" by (rule not_in_update) simp
      with assms None show ?thesis
        unfolding call_from_nil [OF True AtCheck None]
        by (simp add: quiescent_def)
    next
      case (Some t)
      from assms have "AtInit \<notin> set (pcs s)" by (simp add: quiescent_def)
      then have "AtInit \<notin> set ((pcs s)[i := Past])" by (rule not_in_update) simp
      with assms Some show ?thesis
        unfolding call_from_set [OF True AtCheck Some]
        by (simp add: quiescent_def)
    qed
  next
    case AtInit
    with True have "AtInit \<in> set (pcs s)" by (metis nth_mem)
    with assms show ?thesis by (simp add: quiescent_def)
  next
    case Past
    with assms True show ?thesis by (simp add: thread_step_Past)
  qed
qed


lemma one_after_another_Nil: "one_after_another [] = []"
  by (simp add: one_after_another_def)

lemma run_one_after_another_Cons:
  "run (one_after_another (i # order)) s =
     run (one_after_another order) (thread_step i (thread_step i s))"
  by (simp add: one_after_another_def run_Cons)

lemma quiescent_run: "quiescent s \<Longrightarrow> quiescent (run (one_after_another order) s)"
proof (induction order arbitrary: s)
  case Nil
  then show ?case by (simp add: one_after_another_Nil run_Nil)
next
  case (Cons i order)
  from Cons.prems have "quiescent (thread_step i (thread_step i s))" by (rule quiescent_call)
  then show ?case unfolding run_one_after_another_Cons by (rule Cons.IH)
qed

lemma quiescent_built: "quiescent s \<Longrightarrow> built s \<le> 1"
  by (cases "var s") (simp_all add: quiescent_def)

lemma quiescent_var:
  "quiescent s \<Longrightarrow> var s \<noteq> None \<Longrightarrow>
     built s = 1 \<and>
     var s = Some \<lparr>logger = Some defaultLogger, contextEnhancer = Some defaultContextEnhancer\<rparr>"
  by (cases "var s") (simp_all add: quiescent_def)

lemma called_sets_var:
  assumes "quiescent s" and "i < length (pcs s)"
  shows "var (thread_step i (thread_step i s)) \<noteq> None"
proof (cases "pcs s ! i")
  case AtCheck
  show ?thesis
  proof (cases "var s")
    case None
    show ?thesis unfolding call_from_nil [OF assms(2) AtCheck None] by simp
  next
    case (Some t)
    show ?thesis unfolding call_from_set [OF assms(2) AtCheck Some] by (simp add: Some)
  qed
next
  case AtInit
  with assms(2) have "AtInit \<in> set (pcs s)" by (metis nth_mem)
  with assms(1) show ?thesis by (simp add: quiescent_def)
next
  case Past
  with assms(2) have "Past \<in> set (pcs s)" by (metis nth_mem)
  with assms(1) have "var s \<noteq> None" by (cases "var s") (simp_all add: quiescent_def)
  then show ?thesis by (intro thread_step_var_stays)
qed

lemma length_pcs_thread_step: "length (pcs (thread_step i s)) = length (pcs s)"
proof (cases "i < length (pcs s)")
  case False
  then show ?thesis by (simp add: thread_step_out_of_range)
next
  case True
  show ?thesis
  proof (cases "pcs s ! i")
    case AtCheck
    with True show ?thesis
      by (cases "var s") (simp_all add: thread_step_AtCheck_None thread_step_AtCheck_Some)
  next
    case AtInit
    with True show ?thesis by (simp add: thread_step_AtInit)
  next
    case Past
    with True show ?thesis by (simp add: thread_step_Past)
  qed
qed

lemma called_sets_var_run:
  assumes "quiescent s" and "i \<in> set order" and "i < length (pcs s)"
  shows "var (run (one_after_another order) s) \<noteq> None"
  using assms
proof (induction order arbitrary: s)
  case Nil
  then show ?case by simp
next
  case (Cons j order)
  have q: "quiescent (thread_step j (thread_step j s))"
    using Cons.prems(1) by (rule quiescent_call)
  have l: "i < length (pcs (thread_step j (thread_step j s)))"
    using Cons.prems(3) by (simp add: length_pcs_thread_step)
  show ?case
  proof (cases "i = j")
    case True
    with Cons.prems have "var (thread_step j (thread_step j s)) \<noteq> None"
      by (simp add: called_sets_var)
    then show ?thesis unfolding run_one_after_another_Cons by (rule run_var_stays)
  next
    case False
    with Cons.prems(2) have "i \<in> set order" by simp
    with q show ?thesis unfolding run_one_after_another_Cons using l by (rule Cons.IH)
  qed
qed

text \<open>
  A goroutine that runs its two steps with no step of another goroutine in between
  leaves in the variable what \<open>Track\<close> leaves in the package variable.
\<close>

lemma goroutine_alone_is_Track_prologue:
  assumes "i < length (pcs s)" and "pcs s ! i = AtCheck"
    and "Track \<lparr>defaultTracker = var s\<rparr> now c startTime name lg0 = Inr (g', sub)"
  shows "var (thread_step i (thread_step i s)) = defaultTracker g'"
proof (cases "var s")
  case None
  from assms(3) have "defaultTracker g' =
      Some \<lparr>logger = Some defaultLogger, contextEnhancer = Some defaultContextEnhancer\<rparr>"
    by (auto simp: None Track_default_state)
  then show ?thesis unfolding call_from_nil [OF assms(1,2) None] by simp
next
  case (Some t)
  from assms(3) have "defaultTracker g' = Some t"
    by (rule Track_InrE) (simp add: Some)
  then show ?thesis unfolding call_from_set [OF assms(1,2) Some] by (simp add: Some)
qed

text \<open>
  What does hold of the two statements. No tracker exists before the first call. Once
  the variable is set it is never \<open>nil\<close> again, under every schedule. When the calls of
  \<open>Track\<close> do not overlap, the construction runs at most once, and exactly once as soon
  as one call has been made; the variable then holds the tracker built with no options.
\<close>

lemma default_tracker_built_once_without_overlap:
  "var (start n :: 'z shared) = None \<and> built (start n :: 'z shared) = 0 \<and>
   (var (s :: 'z shared) \<noteq> None \<longrightarrow> var (run schedule s) \<noteq> None) \<and>
   built (run (one_after_another order) (start n :: 'z shared)) \<le> 1 \<and>
   (i \<in> set order \<longrightarrow> i < n \<longrightarrow>
      built (run (one_after_another order) (start n :: 'z shared)) = 1 \<and>
      var (run (one_after_another order) (start n :: 'z shared)) =
        Some \<lparr>logger = Some defaultLogger, contextEnhancer = Some defaultContextEnhancer\<rparr>)"
proof (intro conjI impI)
  show "var (start n :: 'z shared) = None" and "built (start n :: 'z shared) = 0"
    by (simp_all add: start_def)
  show "var (run schedule s) \<noteq> None" if "var s \<noteq> None"
    using that by (rule run_var_stays)
  have q: "quiescent (run (one_after_another order) (start n :: 'z shared))"
    by (intro quiescent_run quiescent_start)
  then show "built (run (one_after_another order) (start n :: 'z shared)) \<le> 1"
    by (rule quiescent_built)
  assume "i \<in> set order" and "i < n"
  then have "var (run (one_after_another order) (start n :: 'z shared)) \<noteq> None"
    by (intro called_sets_var_run quiescent_start) (simp_all add: start_def)
  with q have *: "built (run (one_after_another order) (start n :: 'z shared)) = 1 \<and>
      var (run (one_after_another order) (start n :: 'z shared)) =
        Some \<lparr>logger = Some defaultLogger, contextEnhancer = Some defaultContextEnhancer\<rparr>"
    by (rule quiescent_var)
  from * show "built (run (one_after_another order) (start n :: 'z shared)) = 1" ..
  from * show "var (run (one_after_another order) (start n :: 'z shared)) =
        Some \<lparr>logger = Some defaultLogger, contextEnhancer = Some defaultContextEnhancer\<rparr>" ..
qed

text \<open>
  The same for three goroutines of which the third and then the first call, one after
  the other, and for a state in which the variable is already set.
\<close>

lemma default_tracker_built_once_without_overlap_example:
  "(0::nat) \<in> set [2, 0, 2] \<and> (0::nat) < 3 \<and>
   built (run (one_after_another [2, 0, 2]) (start 3 :: unit shared)) = 1 \<and>
   var (run (one_after_another [2, 0, 2]) (start 3 :: unit shared)) =
     Some \<lparr>logger = Some defaultLogger, contextEnhancer = Some defaultContextEnhancer\<rparr> \<and>
   var (run [0, 0] (start (Suc 0) :: unit shared)) \<noteq> None \<and>
   var (run [0, 0, 0] (run [0, 0] (start (Suc 0) :: unit shared))) \<noteq> None"
proof -
  have h: "var (run [0, 0] (start (Suc 0) :: unit shared)) \<noteq> None"
    by (simp add: run_def start_def thread_step_def NewLatencyTracker_Nil)
  have i: "(0::nat) \<in> set [2, 0, 2]" and n: "(0::nat) < 3" by simp_all
  note t = default_tracker_built_once_without_overlap
             [of 3 "run [0, 0] (start (Suc 0))" "[0, 0, 0]" "[2, 0, 2]" 0]
  from t h have "var (run [0, 0, 0] (run [0, 0] (start (Suc 0) :: unit shared))) \<noteq> None"
    by blast
  moreover from t i n
  have "built (run (one_after_another [2, 0, 2]) (start 3 :: unit shared)) = 1 \<and>
   var (run (one_after_another [2, 0, 2]) (start 3 :: unit shared)) =
     Some \<lparr>logger = Some defaultLogger, contextEnhancer = Some defaultContextEnhancer\<rparr>"
    by blast
  ultimately show ?thesis using h i n by blast
qed

end
